theory Spec2Isabelle
  imports Complex_Main "HOL-Library.Sublist" "HOL-Library.AList" "HOL-Library.Multiset"
    "HOL-Library.Char_ord" "HOL-Library.List_Lexorder"
begin

section \<open>Python strings\<close>

text \<open>
  A Python \<open>str\<close> is modelled as a \<open>string\<close> whose characters are ASCII code points.
  \<open>isspace\<close> is the whitespace of \<open>str.split()\<close> and \<open>str.strip()\<close> in that range,
  \<open>py_lower\<close> is \<open>str.lower()\<close> and \<open>py_in\<close> is the substring test \<open>t in s\<close>.
\<close>

definition isspace :: "char \<Rightarrow> bool" where
  "isspace c = (c \<in> set [CHR 0x09, CHR 0x0A, CHR 0x0B, CHR 0x0C, CHR 0x0D,
                          CHR 0x1C, CHR 0x1D, CHR 0x1E, CHR 0x1F, CHR 0x20])"

definition lower_char :: "char \<Rightarrow> char" where
  "lower_char c =
     (if 65 \<le> (of_char c :: nat) \<and> (of_char c :: nat) \<le> 90
      then char_of ((of_char c :: nat) + 32) else c)"

definition py_lower :: "string \<Rightarrow> string" where
  "py_lower s = map lower_char s"

fun split_acc :: "string \<Rightarrow> string \<Rightarrow> string list" where
  "split_acc w [] = (if w = [] then [] else [w])"
| "split_acc w (c # cs) =
     (if isspace c then (if w = [] then split_acc [] cs else w # split_acc [] cs)
      else split_acc (w @ [c]) cs)"

definition py_split :: "string \<Rightarrow> string list" where
  "py_split s = split_acc [] s"

definition py_strip :: "string \<Rightarrow> string" where
  "py_strip s = rev (dropWhile isspace (rev (dropWhile isspace s)))"

definition py_in :: "string \<Rightarrow> string \<Rightarrow> bool" where
  "py_in t s = sublist t s"

section \<open>Data of the vector store and of the retriever\<close>

text \<open>
  A payload is the dict stored with a point; the program writes the keys
  \<open>source_id\<close> and \<open>text\<close> with string values. \<open>payload_get\<close> is \<open>dict.get\<close>.
  A scored point is what the client's \<open>query_points\<close> returns for one hit;
  its payload may be \<open>None\<close>.
\<close>

type_synonym payload = "(string \<times> string) list"

definition payload_get :: "payload \<Rightarrow> string \<Rightarrow> string option" where
  "payload_get d k = map_of d k"

record 'id scored_point =
  sp_id :: 'id
  sp_payload :: "payload option"
  sp_score :: real

text \<open>One entry of \<open>results\<close> in \<open>search_vectors\<close>: the dict with the keys
  \<open>text\<close>, \<open>source\<close> and \<open>score\<close>.\<close>

record candidate =
  r_text :: string
  r_source :: string
  r_score :: real

text \<open>The dict returned by \<open>search_vectors\<close>. The list built from a Python set has
  no order of its own, so \<open>sources\<close> fields are sets.\<close>

record search_output =
  so_context :: "string list"
  so_sources :: "string set"
  so_results :: "candidate list"

text \<open>\<open>RAGSearchResult\<close> of \<open>custom_types.py\<close>.\<close>

record RAGSearchResult =
  contexts :: "string list"
  sources :: "string set"

section \<open>\<open>search_vectors\<close>: from the client's hits to candidates\<close>

text \<open>Lines 43-52 of \<open>vector_db.py\<close>: the loop over the points the client returned.
  \<open>p.payload or {}\<close> turns a missing payload into the empty dict; \<open>if text:\<close> keeps a
  hit only when the text is present and not empty; \<open>payload.get("source_id", "")\<close>.\<close>

definition payload_or_empty :: "payload option \<Rightarrow> payload" where
  "payload_or_empty p = (case p of None \<Rightarrow> [] | Some d \<Rightarrow> d)"

fun collect_results :: "'id scored_point list \<Rightarrow> candidate list" where
  "collect_results [] = []"
| "collect_results (p # ps) =
     (let payload = payload_or_empty (sp_payload p) in
      case payload_get payload ''text'' of
        None \<Rightarrow> collect_results ps
      | Some t \<Rightarrow>
          if t = [] then collect_results ps
          else \<lparr>r_text = t,
                r_source = (case payload_get payload ''source_id'' of None \<Rightarrow> [] | Some s \<Rightarrow> s),
                r_score = sp_score p\<rparr> # collect_results ps)"

definition search_vectors_result :: "'id scored_point list \<Rightarrow> search_output" where
  "search_vectors_result points =
     (let results = collect_results points in
      \<lparr>so_context = map r_text results,
       so_sources = set (map r_source results),
       so_results = results\<rparr>)"

section \<open>\<open>_search\<close>: lexical boost, sort, truncation\<close>

text \<open>Line 59 of \<open>main.py\<close>: the set of the question's terms.\<close>

definition terms_of :: "string \<Rightarrow> string set" where
  "terms_of question = set (filter (\<lambda>t. 3 \<le> length t) (py_split (py_lower question)))"

text \<open>Lines 62-65: one turn of the loop over \<open>results\<close>.\<close>

definition matches_of :: "string set \<Rightarrow> candidate \<Rightarrow> nat" where
  "matches_of terms r = card (Set.filter (\<lambda>term. py_in term (py_lower (r_source r))) terms)"

definition boost :: "string set \<Rightarrow> candidate \<Rightarrow> candidate" where
  "boost terms r =
     (let matches = matches_of terms r in
      if 0 < matches then r\<lparr>r_score := r_score r + (0.5 + real matches * 0.1)\<rparr> else r)"

text \<open>\<open>list.sort(key=..., reverse=True)\<close>: the list is reversed, sorted stably by
  ascending key, and reversed again.\<close>

definition py_sort :: "('a \<Rightarrow> real) \<Rightarrow> bool \<Rightarrow> 'a list \<Rightarrow> 'a list" where
  "py_sort key reverse xs =
     (if reverse then rev (sort_key key (rev xs)) else sort_key key xs)"

text \<open>The slice \<open>xs[:k]\<close>; a negative \<open>k\<close> counts from the end.\<close>

definition slice_to :: "'a list \<Rightarrow> int \<Rightarrow> 'a list" where
  "slice_to xs k =
     (if k < 0 then take (nat (int (length xs) + k)) xs else take (nat k) xs)"

text \<open>Lines 59-68: the candidates after the boost and the sort, and the first \<open>top_k\<close>.\<close>

definition rescored :: "string \<Rightarrow> candidate list \<Rightarrow> candidate list" where
  "rescored question results = map (boost (terms_of question)) results"

definition ranked :: "string \<Rightarrow> candidate list \<Rightarrow> candidate list" where
  "ranked question results = py_sort r_score True (rescored question results)"

definition top_results :: "string \<Rightarrow> int \<Rightarrow> candidate list \<Rightarrow> candidate list" where
  "top_results question top_k results = slice_to (ranked question results) top_k"

text \<open>Lines 57-73: what \<open>_search\<close> makes of the candidates of the store.\<close>

definition search_result :: "string \<Rightarrow> int \<Rightarrow> candidate list \<Rightarrow> RAGSearchResult" where
  "search_result question top_k results =
     (let top = top_results question top_k results in
      \<lparr>contexts = map r_text top, sources = set (map r_source top)\<rparr>)"

section \<open>The outside world\<close>

text \<open>
  Exceptions are values. \<open>ServiceError\<close> stands for whatever an external service raises
  (the embedding endpoint, the PDF reader, the language model, the store).
\<close>

datatype error = ValueError string | KeyError string | IndexError | ServiceError string

text \<open>\<open>PointStruct\<close>, \<open>Distance\<close> and \<open>VectorParams\<close> of the store's client.\<close>

record 'id PointStruct =
  ps_id :: 'id
  ps_vector :: "real list"
  ps_payload :: payload

datatype Distance = COSINE | EUCLID | DOT | MANHATTAN

record VectorParams =
  vp_size :: nat
  vp_distance :: Distance

text \<open>A collection of the store: its vector parameters and its points, a dict from
  ids to vector and payload, as an association list in insertion order.\<close>

record 'id collection_state =
  col_params :: VectorParams
  col_points :: "('id \<times> real list \<times> payload option) list"

text \<open>A request that leaves the process, or an operation on the store.\<close>

datatype call =
    EmbeddingsCreate "string list"
  | ClientOpen
  | CollectionExists string
  | CreateCollection string
  | Upsert string nat
  | QueryPoints string
  | Scroll string
  | ClientClose
  | Infer string

text \<open>The state the program acts on: the collections on disk under
  \<open>qdrant_storage\<close>, by name, and the log of the calls made so far, oldest first.\<close>

record 'id world =
  storage :: "(string \<times> 'id collection_state) list"
  calls :: "call list"

definition logged :: "call \<Rightarrow> 'id world \<Rightarrow> 'id world" where
  "logged c w = w\<lparr>calls := calls w @ [c]\<rparr>"

text \<open>One item of the embedding response's \<open>data\<close>.\<close>

record embedding_item =
  em_index :: nat
  em_embedding :: "real list"

text \<open>
  What the external services answer, as functions of the request: the PDF reader (the
  \<open>text\<close> attribute of each document, \<open>None\<close> when it has none), the sentence splitter,
  the embedding endpoint, \<open>uuid5\<close> in the URL namespace, the nearest-neighbour query of
  the store (collection, query vector, limit, source filter, score threshold) and the
  language model (the content of the first choice).
\<close>

record 'id env =
  load_data :: "string \<Rightarrow> error + string option list"
  split_text :: "string \<Rightarrow> string list"
  embeddings_create :: "string list \<Rightarrow> error + embedding_item list"
  uuid5 :: "string \<Rightarrow> 'id"
  query_points ::
    "'id collection_state \<Rightarrow> real list \<Rightarrow> nat \<Rightarrow> string option \<Rightarrow> real \<Rightarrow> 'id scored_point list"
  infer :: "string \<Rightarrow> error + string"

subsection \<open>The store's client\<close>

text \<open>The operations of the client the program calls, on the state above: a
  collection is created empty and must not exist yet, an upsert overwrites the point
  of the same id or adds the point, and every operation on a collection that does not
  exist raises.\<close>

definition client_collection_exists :: "string \<Rightarrow> 'id world \<Rightarrow> bool \<times> 'id world" where
  "client_collection_exists name w =
     (map_of (storage w) name \<noteq> None, logged (CollectionExists name) w)"

definition client_create_collection ::
  "string \<Rightarrow> VectorParams \<Rightarrow> 'id world \<Rightarrow> (error + unit) \<times> 'id world" where
  "client_create_collection name vectors_config w =
     (let w1 = logged (CreateCollection name) w in
      case map_of (storage w) name of
        Some c \<Rightarrow> (Inl (ValueError ''Collection already exists''), w1)
      | None \<Rightarrow>
          (Inr (), w1\<lparr>storage := storage w @
                    [(name, \<lparr>col_params = vectors_config, col_points = []\<rparr>)]\<rparr>))"

definition upsert_point ::
  "'id PointStruct \<Rightarrow> ('id \<times> real list \<times> payload option) list
     \<Rightarrow> ('id \<times> real list \<times> payload option) list" where
  "upsert_point p al = AList.update (ps_id p) (ps_vector p, Some (ps_payload p)) al"

definition client_upsert ::
  "string \<Rightarrow> 'id PointStruct list \<Rightarrow> 'id world \<Rightarrow> (error + unit) \<times> 'id world" where
  "client_upsert name points w =
     (let w1 = logged (Upsert name (length points)) w in
      case map_of (storage w) name of
        None \<Rightarrow> (Inl (ValueError ''Collection not found''), w1)
      | Some c \<Rightarrow>
          (Inr (), w1\<lparr>storage := AList.update name
                    (c\<lparr>col_points := fold upsert_point points (col_points c)\<rparr>) (storage w)\<rparr>))"

definition client_query_points ::
  "'id env \<Rightarrow> string \<Rightarrow> real list \<Rightarrow> nat \<Rightarrow> string option \<Rightarrow> real \<Rightarrow> 'id world
     \<Rightarrow> (error + 'id scored_point list) \<times> 'id world" where
  "client_query_points env name query limit query_filter score_threshold w =
     (let w1 = logged (QueryPoints name) w in
      case map_of (storage w) name of
        None \<Rightarrow> (Inl (ValueError ''Collection not found''), w1)
      | Some c \<Rightarrow> (Inr (query_points env c query limit query_filter score_threshold), w1))"

section \<open>\<open>vector_db.py\<close>: \<open>QdrantStorage\<close>\<close>

record QdrantStorage =
  qs_collection :: string
  qs_dim :: nat

text \<open>\<open>__init__\<close>, lines 5-13 (\<open>vdim\<close> is the parameter \<open>dim\<close>).\<close>

definition QdrantStorage_init ::
  "string \<Rightarrow> nat \<Rightarrow> 'id world \<Rightarrow> (error + QdrantStorage) \<times> 'id world" where
  "QdrantStorage_init collection vdim w =
     (let self = \<lparr>qs_collection = collection, qs_dim = vdim\<rparr>;
          (exists, w1) = client_collection_exists collection (logged ClientOpen w)
      in if \<not> exists then
           (case client_create_collection collection
                   \<lparr>vp_size = vdim, vp_distance = COSINE\<rparr> w1 of
              (Inl e, w2) \<Rightarrow> (Inl e, w2)
            | (Inr u, w2) \<Rightarrow> (Inr self, w2))
         else (Inr self, w1))"

text \<open>\<open>QdrantStorage()\<close> with the default arguments.\<close>

definition QdrantStorage_default :: "'id world \<Rightarrow> (error + QdrantStorage) \<times> 'id world" where
  "QdrantStorage_default w = QdrantStorage_init ''docs_2560'' 2560 w"

definition close :: "'id world \<Rightarrow> 'id world" where
  "close w = logged ClientClose w"

text \<open>\<open>upsert_vectors\<close>, lines 23-25: \<open>vectors[i]\<close> and \<open>payloads[i]\<close> raise when the
  list is shorter than \<open>ids\<close>.\<close>

definition upsert_vectors ::
  "QdrantStorage \<Rightarrow> 'id list \<Rightarrow> real list list \<Rightarrow> payload list \<Rightarrow> 'id world
     \<Rightarrow> (error + unit) \<times> 'id world" where
  "upsert_vectors self ids vectors payloads w =
     (if length vectors < length ids \<or> length payloads < length ids then (Inl IndexError, w)
      else client_upsert (qs_collection self)
             (map (\<lambda>i. \<lparr>ps_id = ids ! i, ps_vector = vectors ! i, ps_payload = payloads ! i\<rparr>)
                [0..<length ids]) w)"

text \<open>\<open>search_vectors\<close>, lines 27-58.\<close>

definition search_vectors ::
  "'id env \<Rightarrow> QdrantStorage \<Rightarrow> real list \<Rightarrow> nat \<Rightarrow> string option \<Rightarrow> real \<Rightarrow> 'id world
     \<Rightarrow> (error + search_output) \<times> 'id world" where
  "search_vectors env self query_vector top_k source_id score_threshold w =
     (let query_filter = (case source_id of None \<Rightarrow> None
                          | Some s \<Rightarrow> if s = [] then None else Some s)
      in case client_query_points env (qs_collection self) query_vector top_k
                query_filter score_threshold w of
           (Inl e, w1) \<Rightarrow> (Inl e, w1)
         | (Inr points, w1) \<Rightarrow> (Inr (search_vectors_result points), w1))"

section \<open>\<open>data_loader.py\<close>\<close>

text \<open>\<open>load_and_chunk_pdf\<close>, lines 18-26.\<close>

definition blank :: "string \<Rightarrow> bool" where
  "blank t = (py_strip t = [])"

definition load_and_chunk_pdf :: "'id env \<Rightarrow> string \<Rightarrow> error + string list" where
  "load_and_chunk_pdf env path =
     (case load_data env path of
        Inl e \<Rightarrow> Inl e
      | Inr docs \<Rightarrow>
          (let texts = concat (map (\<lambda>d. case d of None \<Rightarrow> []
                                           | Some t \<Rightarrow> if t = [] then [] else [t]) docs)
           in if texts = [] \<or> list_all blank texts
              then Inl (ValueError (''No text extracted from '' @ path @
                         ''. The PDF might be a scanned image or empty.''))
              else Inr (concat (map (split_text env) texts))))"

text \<open>\<open>embed_texts\<close>, lines 28-33.\<close>

definition embed_texts ::
  "'id env \<Rightarrow> string list \<Rightarrow> 'id world \<Rightarrow> (error + real list list) \<times> 'id world" where
  "embed_texts env texts w =
     (let w1 = logged (EmbeddingsCreate texts) w in
      case embeddings_create env texts of
        Inl e \<Rightarrow> (Inl e, w1)
      | Inr data \<Rightarrow> (Inr (map em_embedding data), w1))"

section \<open>\<open>main.py\<close>: the two handlers\<close>

text \<open>\<open>str(i)\<close> for \<open>i \<ge> 0\<close> and \<open>sep.join(xs)\<close>.\<close>

fun str_nat :: "nat \<Rightarrow> string" where
  "str_nat n =
     (if n < 10 then [char_of (48 + n)] else str_nat (n div 10) @ [char_of (48 + n mod 10)])"

declare str_nat.simps [simp del]

fun py_join :: "string \<Rightarrow> string list \<Rightarrow> string" where
  "py_join sep [] = []"
| "py_join sep [x] = x"
| "py_join sep (x # y # ys) = x @ sep @ py_join sep (y # ys)"

text \<open>\<open>RAGChunkAndSrc\<close>, \<open>RAGUpsertResult\<close> and the dict the query handler returns.
  The event data of the two triggers: \<open>{pdf_path, source_id?}\<close> and
  \<open>{question?, top_k?}\<close>, the strings being strings when present.\<close>

record RAGChunkAndSrc =
  cs_chunks :: "string list"
  cs_source_id :: string

record RAGUpsertResult =
  inngested :: nat

record RAGQueryResult =
  qr_answer :: string
  qr_sources :: "string set"
  qr_num_contexts :: nat

record ingest_event =
  ev_pdf_path :: "string option"
  ev_source_id :: "string option"

record query_event =
  ev_question :: "string option"
  ev_top_k :: "int option"

text \<open>\<open>_load\<close>, lines 26-30.\<close>

definition load :: "'id env \<Rightarrow> ingest_event \<Rightarrow> error + RAGChunkAndSrc" where
  "load env ev =
     (case ev_pdf_path ev of
        None \<Rightarrow> Inl (KeyError ''pdf_path'')
      | Some pdf_path \<Rightarrow>
          (let source_id = (case ev_source_id ev of None \<Rightarrow> pdf_path | Some s \<Rightarrow> s) in
           case load_and_chunk_pdf env pdf_path of
             Inl e \<Rightarrow> Inl e
           | Inr chunks \<Rightarrow> Inr \<lparr>cs_chunks = chunks, cs_source_id = source_id\<rparr>))"

text \<open>Lines 37 and 38: the ids and the payloads of the chunks.\<close>

definition chunk_ids :: "'id env \<Rightarrow> string \<Rightarrow> string list \<Rightarrow> 'id list" where
  "chunk_ids env source_id chunks =
     map (\<lambda>i. uuid5 env (source_id @ '':'' @ str_nat i)) [0..<length chunks]"

definition chunk_payloads :: "string \<Rightarrow> string list \<Rightarrow> payload list" where
  "chunk_payloads source_id chunks =
     map (\<lambda>i. [(''source_id'', source_id), (''text'', chunks ! i)]) [0..<length chunks]"

text \<open>\<open>_upsert\<close>, lines 32-41. The \<open>with\<close> block closes the store on every path.\<close>

definition upsert ::
  "'id env \<Rightarrow> RAGChunkAndSrc \<Rightarrow> 'id world \<Rightarrow> (error + RAGUpsertResult) \<times> 'id world" where
  "upsert env chunks_and_src w =
     (let chunks = cs_chunks chunks_and_src;
          source_id = cs_source_id chunks_and_src
      in case embed_texts env chunks w of
           (Inl e, w1) \<Rightarrow> (Inl e, w1)
         | (Inr vecs, w1) \<Rightarrow>
             (let ids = chunk_ids env source_id chunks;
                  payloads = chunk_payloads source_id chunks
              in case QdrantStorage_default w1 of
                   (Inl e, w2) \<Rightarrow> (Inl e, w2)
                 | (Inr store, w2) \<Rightarrow>
                     (case upsert_vectors store ids vecs payloads w2 of
                        (Inl e, w3) \<Rightarrow> (Inl e, close w3)
                      | (Inr u, w3) \<Rightarrow> (Inr \<lparr>inngested = length chunks\<rparr>, close w3))))"

text \<open>\<open>rag_inngest_pdf\<close>, lines 25-45: the two steps in turn.\<close>

definition rag_inngest_pdf ::
  "'id env \<Rightarrow> ingest_event \<Rightarrow> 'id world \<Rightarrow> (error + RAGUpsertResult) \<times> 'id world" where
  "rag_inngest_pdf env ev w =
     (case load env ev of
        Inl e \<Rightarrow> (Inl e, w)
      | Inr chunks_and_src \<Rightarrow> upsert env chunks_and_src w)"

text \<open>\<open>_search\<close>, lines 52-73; \<open>embed_texts([question])[0]\<close> raises on an empty list.\<close>

definition search ::
  "'id env \<Rightarrow> string \<Rightarrow> int \<Rightarrow> 'id world \<Rightarrow> (error + RAGSearchResult) \<times> 'id world" where
  "search env question top_k w =
     (case embed_texts env [question] w of
        (Inl e, w1) \<Rightarrow> (Inl e, w1)
      | (Inr vecs, w1) \<Rightarrow>
          (case vecs of
             [] \<Rightarrow> (Inl IndexError, w1)
           | query_vec # rest \<Rightarrow>
               (case QdrantStorage_default w1 of
                  (Inl e, w2) \<Rightarrow> (Inl e, w2)
                | (Inr store, w2) \<Rightarrow>
                    (case search_vectors env store query_vec 500 None 0.1 w2 of
                       (Inl e, w3) \<Rightarrow> (Inl e, close w3)
                     | (Inr raw_found, w3) \<Rightarrow>
                         (Inr (search_result question top_k (so_results raw_found)),
                          close w3)))))"

text \<open>Lines 83-89: the prompt.\<close>

definition user_content :: "string \<Rightarrow> string list \<Rightarrow> string" where
  "user_content question ctxs =
     ''use the following context to answer the question.'' @ [CHR 0x0A, CHR 0x0A] @
     ''context:'' @ [CHR 0x0A] @
     py_join [CHR 0x0A, CHR 0x0A] (map (\<lambda>c. ''- '' @ c) ctxs) @ [CHR 0x0A, CHR 0x0A] @
     ''question: '' @ question @ [CHR 0x0A, CHR 0x0A] @
     ''Answer consisely using the context above''"

text \<open>\<open>rag_query_pdf_ai\<close>, lines 51-112. \<open>if not question\<close> holds for a missing and
  for an empty question.\<close>

definition rag_query_pdf_ai ::
  "'id env \<Rightarrow> query_event \<Rightarrow> 'id world \<Rightarrow> (error + RAGQueryResult) \<times> 'id world" where
  "rag_query_pdf_ai env ev w =
     (case ev_question ev of
        None \<Rightarrow>
          (Inl (ValueError
             ''Missing 'question' in event data. Please provide a question to query.''), w)
      | Some question \<Rightarrow>
          if question = [] then
            (Inl (ValueError
               ''Missing 'question' in event data. Please provide a question to query.''), w)
          else
            (let top_k = (case ev_top_k ev of None \<Rightarrow> 15 | Some k \<Rightarrow> k) in
             case search env question top_k w of
               (Inl e, w1) \<Rightarrow> (Inl e, w1)
             | (Inr found, w1) \<Rightarrow>
                 (let content = user_content question (contexts found);
                      w2 = logged (Infer content) w1
                  in case infer env content of
                       Inl e \<Rightarrow> (Inl e, w2)
                     | Inr res \<Rightarrow>
                         (Inr \<lparr>qr_answer = py_strip res, qr_sources = sources found,
                               qr_num_contexts = length (contexts found)\<rparr>, w2))))"

text \<open>The points that line 24 of \<open>vector_db.py\<close> builds from the ids, vectors and
  payloads of \<open>_upsert\<close>.\<close>

definition chunk_points :: "'id env \<Rightarrow> RAGChunkAndSrc \<Rightarrow> real list list \<Rightarrow> 'id PointStruct list" where
  "chunk_points env cs vecs =
     map (\<lambda>i. \<lparr>ps_id = chunk_ids env (cs_source_id cs) (cs_chunks cs) ! i,
               ps_vector = vecs ! i,
               ps_payload = chunk_payloads (cs_source_id cs) (cs_chunks cs) ! i\<rparr>)
       [0..<length (cs_chunks cs)]"

section \<open>The paginated scan: \<open>list_sources\<close> and \<open>get_visualization_data\<close>\<close>

text \<open>
  A record as the client's \<open>scroll\<close> returns it. \<open>scroll\<close> itself, on the state above:
  the points in ascending order of id, from the offset id on, at most \<open>limit\<close> of them,
  together with the id of the first point not returned, or \<open>None\<close> when none is left.
\<close>

record 'id point_record =
  rec_id :: 'id
  rec_payload :: "payload option"
  rec_vector :: "real list option"

definition scroll_from ::
  "('id::linorder) collection_state \<Rightarrow> 'id option \<Rightarrow> ('id \<times> real list \<times> payload option) list" where
  "scroll_from c offset =
     filter (\<lambda>e. case offset of None \<Rightarrow> True | Some off \<Rightarrow> off \<le> fst e)
       (sort_key fst (col_points c))"

definition to_record :: "bool \<Rightarrow> 'id \<times> real list \<times> payload option \<Rightarrow> 'id point_record" where
  "to_record with_vectors e =
     \<lparr>rec_id = fst e, rec_payload = snd (snd e),
      rec_vector = (if with_vectors then Some (fst (snd e)) else None)\<rparr>"

definition client_scroll ::
  "string \<Rightarrow> nat \<Rightarrow> bool \<Rightarrow> 'id option \<Rightarrow> ('id::linorder) world
     \<Rightarrow> (error + 'id point_record list \<times> 'id option) \<times> 'id world" where
  "client_scroll name limit with_vectors offset w =
     (let w1 = logged (Scroll name) w in
      case map_of (storage w) name of
        None \<Rightarrow> (Inl (ValueError ''Collection not found''), w1)
      | Some c \<Rightarrow>
          (let rest = scroll_from c offset in
           (Inr (map (to_record with_vectors) (take limit rest),
                 if limit < length rest then Some (fst (rest ! limit)) else None), w1)))"

text \<open>Lines 84-88 of \<open>vector_db.py\<close>: the loop over one batch.\<close>

definition add_sources :: "'id point_record list \<Rightarrow> string set \<Rightarrow> string set" where
  "add_sources batch srcs =
     fold (\<lambda>p acc. case payload_get (payload_or_empty (rec_payload p)) ''source_id'' of
                      None \<Rightarrow> acc
                    | Some s \<Rightarrow> if s = [] then acc else insert s acc) batch srcs"

text \<open>Lines 76-90: the \<open>while True\<close> loop of \<open>list_sources\<close>; \<open>None\<close> is a loop that
  does not return.\<close>

partial_function (option) list_sources_loop ::
  "QdrantStorage \<Rightarrow> 'id option \<Rightarrow> string set \<Rightarrow> ('id::linorder) world
     \<Rightarrow> ((error + string set) \<times> 'id world) option" where
  "list_sources_loop self next_offset srcs w =
     (case client_scroll (qs_collection self) 100 False next_offset w of
        (Inl e, w1) \<Rightarrow> Some (Inl e, w1)
      | (Inr (batch, next_offset'), w1) \<Rightarrow>
          if next_offset' = None then Some (Inr (add_sources batch srcs), w1)
          else list_sources_loop self next_offset' (add_sources batch srcs) w1)"

text \<open>\<open>list_sources\<close>, lines 73-91; \<open>sorted(list(sources))\<close>.\<close>

definition list_sources ::
  "QdrantStorage \<Rightarrow> ('id::linorder) world \<Rightarrow> ((error + string list) \<times> 'id world) option" where
  "list_sources self w =
     map_option (\<lambda>(r, w'). (map_sum id sorted_list_of_set r, w'))
       (list_sources_loop self None {} w)"

text \<open>Lines 15-28 of \<open>viz_utils.py\<close>: the loop that collects all points with their
  vectors, and lines 11-28, the \<open>with\<close> block around it.\<close>

partial_function (option) scroll_points_loop ::
  "QdrantStorage \<Rightarrow> 'id option \<Rightarrow> 'id point_record list \<Rightarrow> ('id::linorder) world
     \<Rightarrow> ((error + 'id point_record list) \<times> 'id world) option" where
  "scroll_points_loop store next_offset points w =
     (case client_scroll (qs_collection store) 100 True next_offset w of
        (Inl e, w1) \<Rightarrow> Some (Inl e, w1)
      | (Inr (batch, next_offset'), w1) \<Rightarrow>
          if next_offset' = None then Some (Inr (points @ batch), w1)
          else scroll_points_loop store next_offset' (points @ batch) w1)"

definition get_visualization_points ::
  "('id::linorder) world \<Rightarrow> ((error + 'id point_record list) \<times> 'id world) option" where
  "get_visualization_points w =
     (case QdrantStorage_default w of
        (Inl e, w1) \<Rightarrow> Some (Inl e, w1)
      | (Inr store, w1) \<Rightarrow>
          map_option (\<lambda>(r, w2). (r, close w2)) (scroll_points_loop store None [] w1))"

section \<open>Example services and worlds\<close>

text \<open>A stub of the services with natural numbers as ids, and three states of the
  storage, for evaluating the program on concrete inputs.\<close>

definition example_env :: "nat env" where
  "example_env =
     \<lparr>load_data = (\<lambda>path. if path = ''scan.pdf'' then Inr [Some ''  '', None, Some []]
                          else Inr [Some ''Paris is the capital of France.'', None,
                                    Some ''Berlin is the capital of Germany.'']),
      split_text = (\<lambda>t. if blank t then [] else [t]),
      embeddings_create =
        (\<lambda>texts. Inr (map (\<lambda>i. \<lparr>em_index = i, em_embedding = [real (length (texts ! i))]\<rparr>)
                         [0..<length texts])),
      uuid5 = (\<lambda>name. sum_list (map of_char name)),
      query_points =
        (\<lambda>c query limit query_filter score_threshold.
           take limit (map (\<lambda>(i, v, p). \<lparr>sp_id = i, sp_payload = p, sp_score = 0.5\<rparr>)
                         (col_points c))),
      infer = (\<lambda>content. Inr ''  Paris. '')\<rparr>"

definition empty_world :: "nat world" where
  "empty_world = \<lparr>storage = [], calls = []\<rparr>"

definition small_dim_world :: "nat world" where
  "small_dim_world =
     \<lparr>storage = [(''docs_2560'',
                  \<lparr>col_params = \<lparr>vp_size = 3, vp_distance = COSINE\<rparr>, col_points = []\<rparr>)],
      calls = []\<rparr>"

definition collection_250 :: "nat collection_state" where
  "collection_250 =
     \<lparr>col_params = \<lparr>vp_size = 1, vp_distance = COSINE\<rparr>,
      col_points = map (\<lambda>i. (i, [real i], Some [(''source_id'', ''doc.pdf''), (''text'', ''t'')]))
                     (rev [0..<250])\<rparr>"

definition world_250 :: "nat world" where
  "world_250 = \<lparr>storage = [(''docs_2560'', collection_250)], calls = []\<rparr>"

section \<open>Properties of the hybrid retriever\<close>

subsection \<open>Lexical boost\<close>

lemma matches_of_spec:
  "matches_of (terms_of question) r =
     card {t \<in> set (py_split (py_lower question)).
             3 \<le> length t \<and> (\<exists>pre suf. py_lower (r_source r) = pre @ t @ suf)}"
proof -
  have "Set.filter (\<lambda>term. py_in term (py_lower (r_source r))) (terms_of question) =
        {t \<in> set (py_split (py_lower question)).
             3 \<le> length t \<and> (\<exists>pre suf. py_lower (r_source r) = pre @ t @ suf)}"
    by (auto simp: terms_of_def py_in_def sublist_def)
  then show ?thesis by (simp add: matches_of_def)
qed

lemma boost_fields:
  "r_text (boost ts r) = r_text r"
  "r_source (boost ts r) = r_source r"
  "r_score (boost ts r) =
     (if 1 \<le> matches_of ts r then r_score r + (0.5 + 0.1 * real (matches_of ts r))
      else r_score r)"
  "r_score r \<le> r_score (boost ts r)"
  by (simp_all add: boost_def Let_def)

text \<open>
  Claim C1. The match count of a candidate is the number of distinct terms of the
  question (lower-cased, split at whitespace, at least 3 characters long) that occur as
  a substring of the candidate's lower-cased source. After the loop of lines 61-65 the
  score of every candidate is its old score plus \<open>0.5 + 0.1 * match_count\<close> when the
  count is at least 1 and its old score otherwise; so no score decreases, and text and
  source stay as they were. The terms form a Python set, so a term that the question
  repeats counts once. Scores are real numbers here.
\<close>

theorem rescored_scores:
  "map r_score (rescored question results) =
     map (\<lambda>r. if 1 \<le> card {t \<in> set (py_split (py_lower question)).
                         3 \<le> length t \<and> (\<exists>pre suf. py_lower (r_source r) = pre @ t @ suf)}
               then r_score r + (0.5 + 0.1 * real (card {t \<in> set (py_split (py_lower question)).
                         3 \<le> length t \<and> (\<exists>pre suf. py_lower (r_source r) = pre @ t @ suf)}))
               else r_score r) results
   \<and> list_all2 (\<lambda>r r'. r_score r \<le> r_score r' \<and> r_text r' = r_text r \<and> r_source r' = r_source r)
        results (rescored question results)"
  by (simp add: rescored_def boost_fields list_all2_map2 list.rel_refl matches_of_spec [symmetric])

text \<open>An example: the question names the file twice and the word \<open>report\<close> once; two
  distinct terms match, and the bonus is \<open>0.5 + 0.2\<close>.\<close>

lemma boost_example:
  "boost (terms_of ''What about the DOC doc report'')
     \<lparr>r_text = ''t'', r_source = ''Doc_Report.pdf'', r_score = 0.3\<rparr> =
   \<lparr>r_text = ''t'', r_source = ''Doc_Report.pdf'', r_score = 1\<rparr>"
  by code_simp

subsection \<open>Sorting\<close>

lemma py_sort_desc_sorted: "sorted_wrt (\<lambda>a b. b \<le> a) (map key (py_sort key True xs))"
proof -
  have "sorted (map key (sort_key key (rev xs)))" by simp
  then have "sorted_wrt (\<lambda>a b. b \<le> a) (rev (map key (sort_key key (rev xs))))"
    by (simp add: sorted_wrt_rev)
  then show ?thesis by (simp add: py_sort_def rev_map)
qed

lemma py_sort_desc_stable:
  "filter (\<lambda>y. key y = k) (py_sort key True xs) = filter (\<lambda>y. key y = k) xs"
proof -
  have "filter (\<lambda>y. key y = k) (sort_key key (rev xs)) = filter (\<lambda>y. key y = k) (rev xs)"
    by (rule sort_key_stable)
  then have "rev (filter (\<lambda>y. key y = k) (sort_key key (rev xs))) = filter (\<lambda>y. key y = k) xs"
    by (simp add: rev_filter)
  then show ?thesis by (simp add: py_sort_def rev_filter)
qed

lemma py_sort_mset: "mset (py_sort key rv xs) = mset xs"
  by (simp add: py_sort_def)

lemma length_ranked: "length (ranked question results) = length results"
  by (simp add: ranked_def py_sort_def rescored_def)

text \<open>
  Claim C3. The list after line 67 is a rearrangement of the boosted candidates, its
  scores descend, and for every score \<open>s\<close> the candidates of adjusted score \<open>s\<close> stand
  in it in the order they had before the sort, which is the order of the store's
  ranking (the boost maps the list position by position).
\<close>

theorem ranked_stable_descending:
  "sorted_wrt (\<lambda>a b. b \<le> a) (map r_score (ranked question results))
   \<and> mset (ranked question results) = mset (rescored question results)
   \<and> filter (\<lambda>r. r_score r = s) (ranked question results) =
       filter (\<lambda>r. r_score r = s) (rescored question results)"
  by (simp add: ranked_def py_sort_desc_sorted py_sort_desc_stable py_sort_mset)

subsection \<open>Truncation to the first \<open>top_k\<close>\<close>

text \<open>
  Claim C4, as stated, fails for a negative \<open>top_k\<close>: the slice \<open>results[:-1]\<close> drops the
  last of three candidates and keeps two, while \<open>min(-1, 3)\<close> is \<open>-1\<close>.
\<close>

theorem top_k_negative_counterexample:
  "int (length (contexts (search_result ''q'' (- 1)
      [\<lparr>r_text = ''a'', r_source = ''s'', r_score = 0.9\<rparr>,
       \<lparr>r_text = ''b'', r_source = ''s'', r_score = 0.8\<rparr>,
       \<lparr>r_text = ''c'', r_source = ''s'', r_score = 0.7\<rparr>]))) \<noteq>
   min (- 1) (int (length
      [\<lparr>r_text = ''a'', r_source = ''s'', r_score = 0.9\<rparr>,
       \<lparr>r_text = ''b'', r_source = ''s'', r_score = 0.8\<rparr>,
       \<lparr>r_text = ''c'', r_source = ''s'', r_score = (0.7::real)\<rparr>]))"
  by (simp add: search_result_def top_results_def slice_to_def length_ranked)

text \<open>
  Claim C4, amended. For \<open>top_k \<ge> 0\<close> the number of contexts is the minimum of \<open>top_k\<close>
  and the number of candidates; every source of the result is the source of a candidate
  whose text is among the contexts; and no candidates give the empty result.
\<close>

theorem search_result_top_k:
  "0 \<le> top_k \<Longrightarrow>
     int (length (contexts (search_result question top_k results))) =
       min top_k (int (length results))
   \<and> (\<forall>s \<in> sources (search_result question top_k results).
         \<exists>r \<in> set (rescored question results).
            r_source r = s \<and> r_text r \<in> set (contexts (search_result question top_k results)))
   \<and> search_result question top_k [] = \<lparr>contexts = [], sources = {}\<rparr>"
proof (intro conjI ballI)
  assume k: "0 \<le> top_k"
  show "int (length (contexts (search_result question top_k results))) =
          min top_k (int (length results))"
    using k
    by (auto simp: search_result_def Let_def top_results_def slice_to_def length_ranked min_def)
  show "search_result question top_k [] = \<lparr>contexts = [], sources = {}\<rparr>"
    by (simp add: search_result_def Let_def top_results_def slice_to_def ranked_def
        rescored_def py_sort_def)
next
  fix s assume "s \<in> sources (search_result question top_k results)"
  then obtain r where r: "r \<in> set (top_results question top_k results)" "r_source r = s"
    by (auto simp: search_result_def Let_def)
  have "set (top_results question top_k results) \<subseteq> set (ranked question results)"
    by (auto simp: top_results_def slice_to_def dest: in_set_takeD)
  also have "\<dots> = set (rescored question results)"
    by (simp add: ranked_def py_sort_def)
  finally have "r \<in> set (rescored question results)" using r by auto
  moreover have "r_text r \<in> set (contexts (search_result question top_k results))"
    using r by (simp add: search_result_def Let_def)
  ultimately show "\<exists>r \<in> set (rescored question results).
            r_source r = s \<and> r_text r \<in> set (contexts (search_result question top_k results))"
    using r by blast
qed

theorem search_result_top_k_witness:
  "(0::int) \<le> 1
   \<and> int (length (contexts (search_result ''what is the capital of france'' 1
        [\<lparr>r_text = ''Paris is the capital of France.'', r_source = ''doc.pdf'', r_score = 0.9\<rparr>,
         \<lparr>r_text = ''Berlin is the capital of Germany.'', r_source = ''doc.pdf'', r_score = 0.6\<rparr>]))) =
      min 1 (int (length
        [\<lparr>r_text = ''Paris is the capital of France.'', r_source = ''doc.pdf'', r_score = 0.9\<rparr>,
         \<lparr>r_text = ''Berlin is the capital of Germany.'', r_source = ''doc.pdf'', r_score = (0.6::real)\<rparr>]))"
  using search_result_top_k [of 1 "''what is the capital of france''"
        "[\<lparr>r_text = ''Paris is the capital of France.'', r_source = ''doc.pdf'', r_score = 0.9\<rparr>,
         \<lparr>r_text = ''Berlin is the capital of Germany.'', r_source = ''doc.pdf'', r_score = 0.6\<rparr>]"]
  by simp

text \<open>For a negative \<open>top_k\<close> the slice keeps all but the last \<open>-top_k\<close> candidates.\<close>

lemma search_result_negative_top_k:
  "top_k < 0 \<Longrightarrow>
     int (length (contexts (search_result question top_k results))) =
       max 0 (int (length results) + top_k)"
  by (auto simp: search_result_def Let_def top_results_def slice_to_def length_ranked)

section \<open>Properties of the store wrapper\<close>

subsection \<open>Candidates of \<open>search_vectors\<close>\<close>

lemma collect_results_eq:
  "collect_results points =
     map (\<lambda>p. \<lparr>r_text = the (payload_get (payload_or_empty (sp_payload p)) ''text''),
               r_source = (case payload_get (payload_or_empty (sp_payload p)) ''source_id'' of
                             None \<Rightarrow> [] | Some s \<Rightarrow> s),
               r_score = sp_score p\<rparr>)
         (filter (\<lambda>p. payload_get (payload_or_empty (sp_payload p)) ''text'' \<notin> {None, Some []})
            points)"
  by (induction points) (auto simp: Let_def split: option.splits)

text \<open>
  Claim C10. In the dict that \<open>search_vectors\<close> returns, the candidates (and with them
  the contexts and the sources) are the hits of the client whose payload
  has a text that is present and not empty, in the client's order; the other hits are
  dropped without an error, so the candidates may be fewer than the hits. A hit with no
  \<open>source_id\<close> in its payload has the source \<open>""\<close>.
\<close>

theorem search_vectors_drops_textless:
  "so_results (search_vectors_result points) =
     map (\<lambda>p. \<lparr>r_text = the (payload_get (payload_or_empty (sp_payload p)) ''text''),
               r_source = (case payload_get (payload_or_empty (sp_payload p)) ''source_id'' of
                             None \<Rightarrow> [] | Some s \<Rightarrow> s),
               r_score = sp_score p\<rparr>)
         (filter (\<lambda>p. payload_get (payload_or_empty (sp_payload p)) ''text'' \<notin> {None, Some []})
            points)
   \<and> so_context (search_vectors_result points) =
       map r_text (so_results (search_vectors_result points))
   \<and> so_sources (search_vectors_result points) =
       set (map r_source (so_results (search_vectors_result points)))
   \<and> length (so_results (search_vectors_result points)) \<le> length points"
proof -
  have r: "so_results (search_vectors_result points) = collect_results points"
    by (simp add: search_vectors_result_def Let_def)
  have c: "so_context (search_vectors_result points) = map r_text (collect_results points)"
    by (simp add: search_vectors_result_def Let_def)
  have s: "so_sources (search_vectors_result points) = set (map r_source (collect_results points))"
    by (simp add: search_vectors_result_def Let_def)
  have l: "length (collect_results points) \<le> length points"
    by (subst collect_results_eq) simp
  show ?thesis
    unfolding r c s by (intro conjI refl collect_results_eq l)
qed

text \<open>\<open>search_vectors\<close> returns that dict for the hits of the client's query.\<close>

lemma search_vectors_candidates:
  "fst (search_vectors env self query_vector top_k source_id score_threshold w) =
     (case map_of (storage w) (qs_collection self) of
        None \<Rightarrow> Inl (ValueError ''Collection not found'')
      | Some c \<Rightarrow>
          Inr (search_vectors_result
                 (query_points env c query_vector top_k
                    (case source_id of None \<Rightarrow> None | Some s \<Rightarrow> if s = [] then None else Some s)
                    score_threshold)))"
  by (simp add: search_vectors_def client_query_points_def Let_def split: option.splits)

text \<open>Four hits above the threshold, of which one has no text, one an empty text and
  one no payload: one candidate is left, and its source is empty.\<close>

lemma collect_results_example:
  "collect_results
     [\<lparr>sp_id = 1::nat, sp_payload = Some [(''source_id'', ''a.pdf'')], sp_score = 0.9\<rparr>,
      \<lparr>sp_id = 2, sp_payload = Some [(''source_id'', ''a.pdf''), (''text'', [])], sp_score = 0.8\<rparr>,
      \<lparr>sp_id = 3, sp_payload = None, sp_score = 0.7\<rparr>,
      \<lparr>sp_id = 4, sp_payload = Some [(''text'', ''hello'')], sp_score = 0.6\<rparr>] =
   [\<lparr>r_text = ''hello'', r_source = [], r_score = 0.6\<rparr>]"
  by (simp add: payload_get_def payload_or_empty_def)

subsection \<open>Opening the store\<close>

text \<open>
  Claim C6, as stated, fails: a collection \<open>docs_2560\<close> of dimension 3 exists, the store
  is opened for dimension 2560, and \<open>__init__\<close> returns the store and leaves the
  collection as it is.
\<close>

theorem open_dimension_mismatch_counterexample:
  "fst (QdrantStorage_init ''docs_2560'' 2560 small_dim_world) =
     Inr \<lparr>qs_collection = ''docs_2560'', qs_dim = 2560\<rparr>
   \<and> storage (snd (QdrantStorage_init ''docs_2560'' 2560 small_dim_world)) =
       [(''docs_2560'', \<lparr>col_params = \<lparr>vp_size = 3, vp_distance = COSINE\<rparr>, col_points = []\<rparr>)]"
  by (simp add: QdrantStorage_init_def client_collection_exists_def logged_def small_dim_world_def)

text \<open>
  Claim C6, amended. Opening the store always succeeds. When the collection exists it is
  left as it is, whatever its dimension; when it does not exist it is created empty with
  the configured dimension and the cosine distance.
\<close>

theorem open_creates_or_keeps:
  "fst (QdrantStorage_init c d w) = Inr \<lparr>qs_collection = c, qs_dim = d\<rparr>
   \<and> storage (snd (QdrantStorage_init c d w)) =
       (case map_of (storage w) c of
          Some col \<Rightarrow> storage w
        | None \<Rightarrow> storage w @
            [(c, \<lparr>col_params = \<lparr>vp_size = d, vp_distance = COSINE\<rparr>, col_points = []\<rparr>)])"
  by (auto simp: QdrantStorage_init_def client_collection_exists_def client_create_collection_def
      logged_def Let_def split: option.splits)

section \<open>Properties of the embedder client\<close>

text \<open>
  Claim C9, as stated, fails: for the empty list \<open>embed_texts\<close> sends the request like
  any other and returns what the service answers, here the empty list.
\<close>

theorem embed_empty_counterexample:
  "embed_texts example_env [] empty_world =
     (Inr [], \<lparr>storage = [], calls = [EmbeddingsCreate []]\<rparr>)"
  by (simp add: embed_texts_def example_env_def empty_world_def logged_def)

text \<open>
  Claim C9, amended. For every input list, the empty one too, \<open>embed_texts\<close> sends one
  request with the list and, when the service answers, returns the embeddings of the
  response's items in the order of the response; it compares no lengths.
\<close>

theorem embed_texts_one_request:
  "snd (embed_texts env texts w) = w\<lparr>calls := calls w @ [EmbeddingsCreate texts]\<rparr>
   \<and> fst (embed_texts env texts w) =
       (case embeddings_create env texts of
          Inl e \<Rightarrow> Inl e
        | Inr data \<Rightarrow> Inr (map em_embedding data))"
  by (simp add: embed_texts_def logged_def Let_def split: sum.splits)

section \<open>Properties of the handlers\<close>

subsection \<open>A query without a question\<close>

text \<open>
  Claim C7. When the event data has no question or an empty one, the query handler
  raises the \<open>ValueError\<close> of line 77 and the world is as before: no call was logged, so
  no embedding request and no store operation was made.
\<close>

theorem missing_question_raises_first:
  "ev_question ev = None \<or> ev_question ev = Some [] \<Longrightarrow>
     rag_query_pdf_ai env ev w =
       (Inl (ValueError
          ''Missing 'question' in event data. Please provide a question to query.''), w)"
  by (auto simp: rag_query_pdf_ai_def)

theorem missing_question_raises_first_witness:
  "(ev_question \<lparr>ev_question = Some [], ev_top_k = Some 3\<rparr> = None \<or>
    ev_question \<lparr>ev_question = Some [], ev_top_k = Some 3\<rparr> = Some [])
   \<and> calls (snd (rag_query_pdf_ai example_env
               \<lparr>ev_question = Some [], ev_top_k = Some 3\<rparr> empty_world)) = []"
  using missing_question_raises_first
    [of "\<lparr>ev_question = Some [], ev_top_k = Some 3\<rparr>" example_env empty_world]
  by (simp add: empty_world_def)

text \<open>With a question, the first thing the handler does is the embedding request.\<close>

lemma embed_texts_calls:
  "calls (snd (embed_texts env texts w)) = calls w @ [EmbeddingsCreate texts]"
  by (simp add: embed_texts_def logged_def Let_def split: sum.splits)

lemma calls_logged: "calls (logged c w) = calls w @ [c]"
  by (simp add: logged_def)

lemma QdrantStorage_init_calls:
  "\<exists>cs. calls (snd (QdrantStorage_init c d w)) = calls w @ cs"
  by (auto simp: QdrantStorage_init_def client_collection_exists_def client_create_collection_def
      Let_def calls_logged split: option.splits)

lemma search_vectors_calls:
  "\<exists>cs. calls (snd (search_vectors env self q k sid thr w)) = calls w @ cs"
  by (auto simp: search_vectors_def client_query_points_def Let_def calls_logged
      split: option.splits)

lemma search_calls:
  "\<exists>cs. calls (snd (search env question top_k w)) = calls w @ EmbeddingsCreate [question] # cs"
proof -
  obtain r1 w1 where e: "embed_texts env [question] w = (r1, w1)"
    by (cases "embed_texts env [question] w")
  have c1: "calls w1 = calls w @ [EmbeddingsCreate [question]]"
    using embed_texts_calls [of env "[question]" w] e by simp
  show ?thesis
  proof (cases r1)
    case (Inl err)
    then show ?thesis using e c1 by (simp add: search_def)
  next
    case (Inr vecs)
    show ?thesis
    proof (cases vecs)
      case Nil
      then show ?thesis using e c1 Inr by (simp add: search_def)
    next
      case (Cons v vs)
      obtain st w2 where q: "QdrantStorage_default w1 = (st, w2)" by (cases "QdrantStorage_default w1")
      obtain cs2 where c2: "calls w2 = calls w1 @ cs2"
        using QdrantStorage_init_calls [of "''docs_2560''" 2560 w1] q
        by (auto simp: QdrantStorage_default_def)
      show ?thesis
      proof (cases st)
        case (Inl err)
        then show ?thesis using e c1 Inr Cons q c2 by (simp add: search_def)
      next
        case (Inr store)
        obtain r3 w3 where s: "search_vectors env store v 500 None 0.1 w2 = (r3, w3)"
          by (cases "search_vectors env store v 500 None 0.1 w2")
        obtain cs3 where c3: "calls w3 = calls w2 @ cs3"
          using search_vectors_calls [of env store v 500 None "0.1" w2] s by auto
        show ?thesis
          using e c1 \<open>r1 = Inr vecs\<close> Cons q c2 Inr s c3
          by (cases r3) (simp_all add: search_def close_def calls_logged)
      qed
    qed
  qed
qed

lemma query_with_question_embeds_first:
  assumes "ev_question ev = Some question" and "question \<noteq> []"
  shows "\<exists>cs. calls (snd (rag_query_pdf_ai env ev w)) =
           calls w @ EmbeddingsCreate [question] # cs"
proof -
  let ?k = "case ev_top_k ev of None \<Rightarrow> 15 | Some k \<Rightarrow> k"
  obtain r w1 where s: "search env question ?k w = (r, w1)" by (cases "search env question ?k w")
  obtain cs where c: "calls w1 = calls w @ EmbeddingsCreate [question] # cs"
    using search_calls [of env question ?k w] s by auto
  show ?thesis
    using assms s c
    by (cases r) (auto simp: rag_query_pdf_ai_def Let_def calls_logged split: sum.splits)
qed

subsection \<open>A document without text\<close>

lemma all_dropWhile: "(\<forall>x\<in>set (dropWhile P xs). P x) \<longleftrightarrow> (\<forall>x\<in>set xs. P x)"
  by (induction xs) auto

lemma blank_iff: "blank t \<longleftrightarrow> list_all isspace t"
  by (simp add: blank_def py_strip_def list_all_iff all_dropWhile)

text \<open>
  Claim C8. When every document the reader returns has no text, an empty text or a text
  of whitespace only, the ingestion handler raises the \<open>ValueError\<close> of line 22 of
  \<open>data_loader.py\<close> and the world is as before: nothing was embedded and nothing was
  upserted.
\<close>

theorem empty_document_raises:
  "ev_pdf_path ev = Some path \<Longrightarrow> load_data env path = Inr docs \<Longrightarrow>
   list_all (\<lambda>d. case d of None \<Rightarrow> True | Some t \<Rightarrow> list_all isspace t) docs \<Longrightarrow>
     rag_inngest_pdf env ev w =
       (Inl (ValueError (''No text extracted from '' @ path @
               ''. The PDF might be a scanned image or empty.'')), w)"
proof -
  assume p: "ev_pdf_path ev = Some path" and l: "load_data env path = Inr docs"
    and b: "list_all (\<lambda>d. case d of None \<Rightarrow> True | Some t \<Rightarrow> list_all isspace t) docs"
  have "list_all blank (concat (map (\<lambda>d. case d of None \<Rightarrow> []
                                           | Some t \<Rightarrow> if t = [] then [] else [t]) docs))"
    using b by (induction docs) (auto simp: blank_iff split: option.splits)
  then have "load_and_chunk_pdf env path = Inl (ValueError (''No text extracted from '' @ path @
               ''. The PDF might be a scanned image or empty.''))"
    using l by (simp add: load_and_chunk_pdf_def Let_def)
  then show ?thesis using p by (simp add: rag_inngest_pdf_def load_def Let_def)
qed

theorem empty_document_raises_witness:
  "ev_pdf_path \<lparr>ev_pdf_path = Some ''scan.pdf'', ev_source_id = None\<rparr> = Some ''scan.pdf''
   \<and> load_data example_env ''scan.pdf'' = Inr [Some ''  '', None, Some []]
   \<and> list_all (\<lambda>d. case d of None \<Rightarrow> True | Some t \<Rightarrow> list_all isspace t)
        [Some ''  '', None, Some []]
   \<and> isl (fst (rag_inngest_pdf example_env
                 \<lparr>ev_pdf_path = Some ''scan.pdf'', ev_source_id = None\<rparr> empty_world))
   \<and> snd (rag_inngest_pdf example_env
             \<lparr>ev_pdf_path = Some ''scan.pdf'', ev_source_id = None\<rparr> empty_world) = empty_world"
proof -
  have h1: "ev_pdf_path \<lparr>ev_pdf_path = Some ''scan.pdf'', ev_source_id = None\<rparr> = Some ''scan.pdf''"
    by simp
  have h2: "load_data example_env ''scan.pdf'' = Inr [Some ''  '', None, Some []]"
    by (simp add: example_env_def)
  have h3: "list_all (\<lambda>d. case d of None \<Rightarrow> True | Some t \<Rightarrow> list_all isspace t)
        [Some ''  '', None, Some []]"
    by (simp add: isspace_def)
  show ?thesis
    using empty_document_raises [OF h1 h2 h3, of empty_world] h1 h2 h3 by simp
qed

text \<open>When the splitter yields a chunk for every text that is not blank, a load that
  returns has at least one chunk: an ingestion of zero chunks does not happen.\<close>

lemma load_and_chunk_pdf_nonempty:
  assumes sp: "\<And>t. \<not> blank t \<Longrightarrow> split_text env t \<noteq> []"
    and ld: "load_and_chunk_pdf env path = Inr chunks"
  shows "chunks \<noteq> []"
proof -
  from ld obtain docs where d: "load_data env path = Inr docs"
    by (auto simp: load_and_chunk_pdf_def split: sum.splits)
  let ?texts = "concat (map (\<lambda>d. case d of None \<Rightarrow> [] | Some t \<Rightarrow> if t = [] then [] else [t]) docs)"
  have nb: "\<not> list_all blank ?texts" and ch: "chunks = concat (map (split_text env) ?texts)"
    using ld d by (auto simp: load_and_chunk_pdf_def Let_def split: if_splits)
  from nb obtain t where "t \<in> set ?texts" "\<not> blank t" by (auto simp: list_all_iff)
  then have "split_text env t \<noteq> []" "split_text env t \<in> set (map (split_text env) ?texts)"
    using sp by auto
  then show ?thesis unfolding ch by (metis concat_eq_Nil_conv)
qed

section \<open>Idempotent ingestion\<close>

lemma update_commute:
  "k \<in> fst ` set al \<Longrightarrow> k \<noteq> k' \<Longrightarrow>
     AList.update k v (AList.update k' v' al) = AList.update k' v' (AList.update k v al)"
  by (induction al) auto

lemma update_key_in: "k \<in> fst ` set (AList.update k v al)"
  by (induction al) auto

lemma update_keys_mono: "k' \<in> fst ` set al \<Longrightarrow> k' \<in> fst ` set (AList.update k v al)"
  by (induction al) auto

lemma upsert_point_keys_mono: "k \<in> fst ` set al \<Longrightarrow> k \<in> fst ` set (upsert_point p al)"
  by (simp add: upsert_point_def update_keys_mono)

lemma fold_upsert_keys_mono:
  "k \<in> fst ` set al \<Longrightarrow> k \<in> fst ` set (fold upsert_point ps al)"
  by (induction ps arbitrary: al) (simp_all add: upsert_point_keys_mono)

lemma fold_upsert_absorb:
  "k \<in> ps_id ` set ps \<Longrightarrow> k \<in> fst ` set al \<Longrightarrow>
     fold upsert_point ps (AList.update k v al) = fold upsert_point ps al"
proof (induction ps arbitrary: al)
  case Nil
  then show ?case by simp
next
  case (Cons p ps)
  show ?case
  proof (cases "ps_id p = k")
    case True
    then show ?thesis by (simp add: upsert_point_def)
  next
    case False
    with Cons.prems have in_ps: "k \<in> ps_id ` set ps" by auto
    have "upsert_point p (AList.update k v al) = AList.update k v (upsert_point p al)"
      unfolding upsert_point_def
      by (rule update_commute [symmetric, OF Cons.prems(2)]) (use False in auto)
    moreover have "k \<in> fst ` set (upsert_point p al)"
      using Cons.prems(2) by (rule upsert_point_keys_mono)
    ultimately show ?thesis using Cons.IH [OF in_ps] by simp
  qed
qed

lemma fold_upsert_pass:
  "k \<notin> ps_id ` set ps \<Longrightarrow> k \<in> fst ` set al \<Longrightarrow>
     fold upsert_point ps (AList.update k v al) = AList.update k v (fold upsert_point ps al)"
proof (induction ps arbitrary: al)
  case Nil
  then show ?case by simp
next
  case (Cons p ps)
  have ne: "ps_id p \<noteq> k" and notin: "k \<notin> ps_id ` set ps" using Cons.prems(1) by auto
  have "upsert_point p (AList.update k v al) = AList.update k v (upsert_point p al)"
    unfolding upsert_point_def
    by (rule update_commute [symmetric, OF Cons.prems(2)]) (use ne in auto)
  moreover have "k \<in> fst ` set (upsert_point p al)"
    using Cons.prems(2) by (rule upsert_point_keys_mono)
  ultimately show ?case using Cons.IH [OF notin] by simp
qed

lemma fold_upsert_idem:
  "fold upsert_point ps (fold upsert_point ps al) = fold upsert_point ps al"
proof (induction ps arbitrary: al)
  case Nil
  show ?case by simp
next
  case (Cons p ps)
  let ?k = "ps_id p" and ?v = "(ps_vector p, Some (ps_payload p))"
  let ?al = "upsert_point p al"
  let ?F = "fold upsert_point ps"
  have e: "upsert_point p X = AList.update ?k ?v X" for X
    by (simp add: upsert_point_def)
  have kin': "?k \<in> fst ` set ?al"
    unfolding e by (rule update_key_in)
  have kin: "?k \<in> fst ` set (?F ?al)"
    using kin' by (rule fold_upsert_keys_mono)
  have "?F (upsert_point p (?F ?al)) = ?F ?al"
  proof (cases "?k \<in> ps_id ` set ps")
    case True
    have "?F (AList.update ?k ?v (?F ?al)) = ?F (?F ?al)"
      using True kin by (rule fold_upsert_absorb)
    also have "\<dots> = ?F ?al" by (rule Cons.IH)
    finally show ?thesis unfolding e .
  next
    case False
    have "AList.update ?k ?v ?al = ?al"
      unfolding e by simp
    then have "?F ?al = ?F (AList.update ?k ?v ?al)" by simp
    also have "\<dots> = AList.update ?k ?v (?F ?al)"
      using False kin' by (rule fold_upsert_pass)
    finally have "upsert_point p (?F ?al) = ?F ?al"
      unfolding e by simp
    then show ?thesis by (simp add: Cons.IH)
  qed
  then show ?case by simp
qed


lemma storage_logged [simp]: "storage (logged c w) = storage w"
  by (simp add: logged_def)

lemma storage_close [simp]: "storage (close w) = storage w"
  by (simp add: close_def)

lemma QdrantStorage_init_storage:
  "fst (QdrantStorage_init c d w) = Inr \<lparr>qs_collection = c, qs_dim = d\<rparr>"
  "storage (snd (QdrantStorage_init c d w)) =
     (case map_of (storage w) c of
        Some col \<Rightarrow> storage w
      | None \<Rightarrow> storage w @
          [(c, \<lparr>col_params = \<lparr>vp_size = d, vp_distance = COSINE\<rparr>, col_points = []\<rparr>)])"
  by (auto simp: QdrantStorage_init_def client_collection_exists_def client_create_collection_def
      Let_def split: option.splits)

lemma QdrantStorage_init_has_collection:
  "map_of (storage (snd (QdrantStorage_init c d w))) c \<noteq> None"
  by (auto simp: QdrantStorage_init_storage map_add_def split: option.splits)

lemma upsert_vectors_storage:
  assumes "map_of (storage w) (qs_collection self) = Some c"
    and "length ids \<le> length vectors" and "length ids \<le> length payloads"
  shows "fst (upsert_vectors self ids vectors payloads w) = Inr ()"
    and "storage (snd (upsert_vectors self ids vectors payloads w)) =
      AList.update (qs_collection self)
        (c\<lparr>col_points := fold upsert_point
            (map (\<lambda>i. \<lparr>ps_id = ids ! i, ps_vector = vectors ! i, ps_payload = payloads ! i\<rparr>)
               [0..<length ids]) (col_points c)\<rparr>) (storage w)"
  using assms by (simp_all add: upsert_vectors_def client_upsert_def Let_def)

lemma upsert_ok_iff:
  "isl (fst (upsert env cs w)) \<longleftrightarrow>
     (case embeddings_create env (cs_chunks cs) of
        Inl e \<Rightarrow> True | Inr data \<Rightarrow> length data < length (cs_chunks cs))"
proof (cases "embeddings_create env (cs_chunks cs)")
  case (Inl e)
  then show ?thesis by (simp add: upsert_def embed_texts_def Let_def)
next
  case (Inr data)
  let ?w1 = "logged (EmbeddingsCreate (cs_chunks cs)) w"
  obtain st w2 where q: "QdrantStorage_default ?w1 = (st, w2)" by (cases "QdrantStorage_default ?w1")
  have st: "st = Inr \<lparr>qs_collection = ''docs_2560'', qs_dim = 2560\<rparr>"
    using QdrantStorage_init_storage(1) [of "''docs_2560''" 2560 ?w1] q
    by (simp add: QdrantStorage_default_def)
  have "map_of (storage w2) ''docs_2560'' \<noteq> None"
    using QdrantStorage_init_has_collection [of "''docs_2560''" 2560 ?w1] q
    by (simp add: QdrantStorage_default_def)
  then obtain c where c: "map_of (storage w2) ''docs_2560'' = Some c" by auto
  show ?thesis
    using Inr q st c
    by (auto simp: upsert_def embed_texts_def Let_def upsert_vectors_def client_upsert_def
        chunk_ids_def chunk_payloads_def split: prod.splits sum.splits)
qed


lemma QdrantStorage_default_logged:
  "storage (snd (QdrantStorage_default (logged c w))) = storage (snd (QdrantStorage_default w))"
  by (simp add: QdrantStorage_default_def QdrantStorage_init_storage split: option.splits)

lemma QdrantStorage_default_present:
  "map_of (storage w) ''docs_2560'' = Some c \<Longrightarrow>
     storage (snd (QdrantStorage_default w)) = storage w"
  by (simp add: QdrantStorage_default_def QdrantStorage_init_storage)

lemma upsert_storage:
  assumes d: "embeddings_create env (cs_chunks cs) = Inr data"
    and len: "length (cs_chunks cs) \<le> length data"
    and c: "map_of (storage (snd (QdrantStorage_default w))) ''docs_2560'' = Some c"
  shows "fst (upsert env cs w) = Inr \<lparr>inngested = length (cs_chunks cs)\<rparr>"
    and "storage (snd (upsert env cs w)) =
      AList.update ''docs_2560''
        (c\<lparr>col_points := fold upsert_point (chunk_points env cs (map em_embedding data))
              (col_points c)\<rparr>)
        (storage (snd (QdrantStorage_default w)))"
proof -
  let ?w1 = "logged (EmbeddingsCreate (cs_chunks cs)) w"
  let ?ids = "chunk_ids env (cs_source_id cs) (cs_chunks cs)"
  let ?pls = "chunk_payloads (cs_source_id cs) (cs_chunks cs)"
  let ?self = "\<lparr>qs_collection = ''docs_2560'', qs_dim = 2560\<rparr>"
  obtain st w2 where q: "QdrantStorage_default ?w1 = (st, w2)" by (cases "QdrantStorage_default ?w1")
  have st: "st = Inr ?self"
    using QdrantStorage_init_storage(1) [of "''docs_2560''" 2560 ?w1] q
    by (simp add: QdrantStorage_default_def)
  have s2: "storage w2 = storage (snd (QdrantStorage_default w))"
    using QdrantStorage_default_logged [of "EmbeddingsCreate (cs_chunks cs)" w] q by simp
  have c2: "map_of (storage w2) (qs_collection ?self) = Some c" using c s2 by simp
  have l1: "length ?ids \<le> length (map em_embedding data)"
    and l2: "length ?ids \<le> length ?pls"
    using len by (simp_all add: chunk_ids_def chunk_payloads_def)
  note uv = upsert_vectors_storage [OF c2 l1 l2]
  obtain res w3 where u: "upsert_vectors ?self ?ids (map em_embedding data) ?pls w2 = (res, w3)"
    by (cases "upsert_vectors ?self ?ids (map em_embedding data) ?pls w2")
  have res: "res = Inr ()" using uv(1) u by simp
  have up: "upsert env cs w = (Inr \<lparr>inngested = length (cs_chunks cs)\<rparr>, close w3)"
    using d q st u res by (simp add: upsert_def embed_texts_def Let_def)
  show "fst (upsert env cs w) = Inr \<lparr>inngested = length (cs_chunks cs)\<rparr>"
    using up by simp
  have "length ?ids = length (cs_chunks cs)" by (simp add: chunk_ids_def)
  then show "storage (snd (upsert env cs w)) =
      AList.update ''docs_2560''
        (c\<lparr>col_points := fold upsert_point (chunk_points env cs (map em_embedding data))
              (col_points c)\<rparr>)
        (storage (snd (QdrantStorage_default w)))"
    using up uv(2) u s2 by (simp add: chunk_points_def)
qed

text \<open>Ingesting keeps the ids of a collection distinct, and the ids it writes are the
  \<open>uuid5\<close> of source id, colon and chunk index, whatever the vectors are.\<close>

lemma fold_upsert_distinct:
  "distinct (map fst al) \<Longrightarrow> distinct (map fst (fold upsert_point ps al))"
  by (induction ps arbitrary: al) (simp_all add: upsert_point_def distinct_update)

lemma chunk_points_ids:
  "map ps_id (chunk_points env cs vecs) =
     map (\<lambda>i. uuid5 env (cs_source_id cs @ '':'' @ str_nat i)) [0..<length (cs_chunks cs)]"
  by (simp add: chunk_points_def chunk_ids_def)

lemma fold_upsert_keys:
  "fst ` set (fold upsert_point ps al) = fst ` set al \<union> ps_id ` set ps"
  by (induction ps arbitrary: al) (auto simp: upsert_point_def dom_update)

lemma QdrantStorage_default_collection:
  "map_of (storage (snd (QdrantStorage_default w))) ''docs_2560'' =
     Some (case map_of (storage w) ''docs_2560'' of
             None \<Rightarrow> \<lparr>col_params = \<lparr>vp_size = 2560, vp_distance = COSINE\<rparr>, col_points = []\<rparr>
           | Some c \<Rightarrow> c)"
  by (simp add: QdrantStorage_default_def QdrantStorage_init_storage map_add_def
      split: option.splits)

lemma chunk_points_explicit:
  "chunk_points env cs vecs =
     map (\<lambda>i. \<lparr>ps_id = uuid5 env (cs_source_id cs @ '':'' @ str_nat i),
               ps_vector = vecs ! i,
               ps_payload = [(''source_id'', cs_source_id cs), (''text'', cs_chunks cs ! i)]\<rparr>)
       [0..<length (cs_chunks cs)]"
  unfolding chunk_points_def
  by (rule map_ext) (simp add: chunk_ids_def chunk_payloads_def)

text \<open>
  Claim C2. Let an ingestion of an event succeed. Then the chunks were loaded and
  embedded, and the collection \<open>docs_2560\<close> afterwards is the collection before (the
  empty one, when there was none) with one point upserted per chunk, in order: the
  point of chunk \<open>i\<close> has the id \<open>uuid5(source_id:i)\<close>, the \<open>i\<close>-th vector of the response
  and the payload of source id and chunk text. Its ids are the ids before together with
  these, and they stay distinct when they were. Ingesting the same event again in the
  resulting world succeeds with the same result and leaves the storage exactly as the
  first ingestion left it: the same ids are written, every point is overwritten by
  itself, and no record is added. The PDF reader, the splitter and the embedding
  service answer the same request the same way.
\<close>

theorem reingest_idempotent:
  assumes "rag_inngest_pdf env ev w = (Inr r, w1)"
  shows "\<exists>cs data c0 c1.
           load env ev = Inr cs
         \<and> embeddings_create env (cs_chunks cs) = Inr data
         \<and> r = \<lparr>inngested = length (cs_chunks cs)\<rparr>
         \<and> c0 = (case map_of (storage w) ''docs_2560'' of
                    None \<Rightarrow> \<lparr>col_params = \<lparr>vp_size = 2560, vp_distance = COSINE\<rparr>,
                              col_points = []\<rparr>
                  | Some c \<Rightarrow> c)
         \<and> map_of (storage w1) ''docs_2560'' = Some c1
         \<and> col_params c1 = col_params c0
         \<and> col_points c1 =
             fold upsert_point
               (map (\<lambda>i. \<lparr>ps_id = uuid5 env (cs_source_id cs @ '':'' @ str_nat i),
                         ps_vector = map em_embedding data ! i,
                         ps_payload = [(''source_id'', cs_source_id cs),
                                       (''text'', cs_chunks cs ! i)]\<rparr>)
                  [0..<length (cs_chunks cs)])
               (col_points c0)
         \<and> fst ` set (col_points c1) =
             fst ` set (col_points c0) \<union>
             (\<lambda>i. uuid5 env (cs_source_id cs @ '':'' @ str_nat i)) ` {0..<length (cs_chunks cs)}
         \<and> (distinct (map fst (col_points c0)) \<longrightarrow> distinct (map fst (col_points c1)))
         \<and> fst (rag_inngest_pdf env ev w1) = Inr r
         \<and> storage (snd (rag_inngest_pdf env ev w1)) = storage w1"
proof -
  let ?n = "''docs_2560''"
  from assms obtain cs where l: "load env ev = Inr cs" and u: "upsert env cs w = (Inr r, w1)"
    by (auto simp: rag_inngest_pdf_def split: sum.splits)
  have "\<not> isl (fst (upsert env cs w))" using u by simp
  then obtain data where d: "embeddings_create env (cs_chunks cs) = Inr data"
    and len: "length (cs_chunks cs) \<le> length data"
    by (auto simp: upsert_ok_iff split: sum.splits)
  let ?S = "storage (snd (QdrantStorage_default w))"
  let ?pts = "chunk_points env cs (map em_embedding data)"
  let ?c0 = "case map_of (storage w) ?n of
               None \<Rightarrow> \<lparr>col_params = \<lparr>vp_size = 2560, vp_distance = COSINE\<rparr>, col_points = []\<rparr>
             | Some c \<Rightarrow> c"
  have c: "map_of ?S ?n = Some ?c0" by (rule QdrantStorage_default_collection)
  let ?c1 = "?c0\<lparr>col_points := fold upsert_point ?pts (col_points ?c0)\<rparr>"
  have r: "r = \<lparr>inngested = length (cs_chunks cs)\<rparr>"
    using upsert_storage(1) [OF d len c] u by simp
  have s1: "storage w1 = AList.update ?n ?c1 ?S"
    using upsert_storage(2) [OF d len c] u by simp
  have p1: "map_of (storage w1) ?n = Some ?c1"
    by (simp add: s1 update_conv')
  have o1: "storage (snd (QdrantStorage_default w1)) = storage w1"
    using p1 by (rule QdrantStorage_default_present)
  have c1: "map_of (storage (snd (QdrantStorage_default w1))) ?n = Some ?c1"
    using p1 o1 by simp
  have "storage (snd (upsert env cs w1)) =
      AList.update ?n (?c1\<lparr>col_points := fold upsert_point ?pts (col_points ?c1)\<rparr>) (storage w1)"
    using upsert_storage(2) [OF d len c1] o1 by simp
  also have "?c1\<lparr>col_points := fold upsert_point ?pts (col_points ?c1)\<rparr> = ?c1"
    by (simp add: fold_upsert_idem)
  also have "AList.update ?n ?c1 (storage w1) = storage w1"
    using p1 by (rule update_triv)
  finally have "storage (snd (upsert env cs w1)) = storage w1" .
  then have again_storage: "storage (snd (rag_inngest_pdf env ev w1)) = storage w1"
    using l by (simp add: rag_inngest_pdf_def)
  have "fst (upsert env cs w1) = Inr r"
    using upsert_storage(1) [OF d len c1] r by simp
  then have again_result: "fst (rag_inngest_pdf env ev w1) = Inr r"
    using l by (simp add: rag_inngest_pdf_def)
  have params: "col_params ?c1 = col_params ?c0" by simp
  have points: "col_points ?c1 =
      fold upsert_point
        (map (\<lambda>i. \<lparr>ps_id = uuid5 env (cs_source_id cs @ '':'' @ str_nat i),
                  ps_vector = map em_embedding data ! i,
                  ps_payload = [(''source_id'', cs_source_id cs), (''text'', cs_chunks cs ! i)]\<rparr>)
           [0..<length (cs_chunks cs)])
        (col_points ?c0)"
    by (simp add: chunk_points_explicit)
  have "ps_id ` set ?pts =
          (\<lambda>i. uuid5 env (cs_source_id cs @ '':'' @ str_nat i)) ` {0..<length (cs_chunks cs)}"
    using chunk_points_ids [of env cs "map em_embedding data"]
    by (metis atLeastLessThan_upt image_set)
  then have keys: "fst ` set (col_points ?c1) =
      fst ` set (col_points ?c0) \<union>
      (\<lambda>i. uuid5 env (cs_source_id cs @ '':'' @ str_nat i)) ` {0..<length (cs_chunks cs)}"
    by (simp add: fold_upsert_keys)
  have dist: "distinct (map fst (col_points ?c0)) \<longrightarrow> distinct (map fst (col_points ?c1))"
    by (simp add: fold_upsert_distinct)
  show ?thesis
    using l d r p1 params points keys dist again_result again_storage by blast
qed

text \<open>The storage after that ingestion: one collection of dimension 2560 with the two
  chunks under the ids of \<open>doc.pdf:0\<close> and \<open>doc.pdf:1\<close>.\<close>

lemma ingest_example:
  "storage (snd (rag_inngest_pdf example_env
                   \<lparr>ev_pdf_path = Some ''doc.pdf'', ev_source_id = None\<rparr> empty_world)) =
   [(''docs_2560'',
     \<lparr>col_params = \<lparr>vp_size = 2560, vp_distance = COSINE\<rparr>,
      col_points =
        [(776, [31], Some [(''source_id'', ''doc.pdf''),
                           (''text'', ''Paris is the capital of France.'')]),
         (777, [33], Some [(''source_id'', ''doc.pdf''),
                           (''text'', ''Berlin is the capital of Germany.'')])]\<rparr>)]"
  by code_simp

theorem reingest_idempotent_witness:
  "fst (rag_inngest_pdf example_env \<lparr>ev_pdf_path = Some ''doc.pdf'', ev_source_id = None\<rparr>
          empty_world) = Inr \<lparr>inngested = 2\<rparr>
   \<and> map fst (col_points (the (map_of
        (storage (snd (rag_inngest_pdf example_env
                         \<lparr>ev_pdf_path = Some ''doc.pdf'', ev_source_id = None\<rparr> empty_world)))
        ''docs_2560''))) =
       [uuid5 example_env ''doc.pdf:0'', uuid5 example_env ''doc.pdf:1'']
   \<and> fst (rag_inngest_pdf example_env \<lparr>ev_pdf_path = Some ''doc.pdf'', ev_source_id = None\<rparr>
          (snd (rag_inngest_pdf example_env
                  \<lparr>ev_pdf_path = Some ''doc.pdf'', ev_source_id = None\<rparr> empty_world))) =
       Inr \<lparr>inngested = 2\<rparr>
   \<and> storage (snd (rag_inngest_pdf example_env
                      \<lparr>ev_pdf_path = Some ''doc.pdf'', ev_source_id = None\<rparr>
          (snd (rag_inngest_pdf example_env
                  \<lparr>ev_pdf_path = Some ''doc.pdf'', ev_source_id = None\<rparr> empty_world)))) =
       storage (snd (rag_inngest_pdf example_env
                  \<lparr>ev_pdf_path = Some ''doc.pdf'', ev_source_id = None\<rparr> empty_world))"
proof -
  let ?ev = "\<lparr>ev_pdf_path = Some ''doc.pdf'', ev_source_id = None\<rparr>"
  let ?w1 = "snd (rag_inngest_pdf example_env ?ev empty_world)"
  have f: "fst (rag_inngest_pdf example_env ?ev empty_world) = Inr \<lparr>inngested = 2\<rparr>"
    by code_simp
  then have h: "rag_inngest_pdf example_env ?ev empty_world = (Inr \<lparr>inngested = 2\<rparr>, ?w1)"
    by (simp add: prod_eq_iff)
  have ids: "map fst (col_points (the (map_of (storage ?w1) ''docs_2560''))) =
      [uuid5 example_env ''doc.pdf:0'', uuid5 example_env ''doc.pdf:1'']"
    unfolding ingest_example by (simp add: example_env_def)
  have "fst (rag_inngest_pdf example_env ?ev ?w1) = Inr \<lparr>inngested = 2\<rparr>
      \<and> storage (snd (rag_inngest_pdf example_env ?ev ?w1)) = storage ?w1"
    using reingest_idempotent [OF h] by blast
  then show ?thesis using f ids by simp
qed

section \<open>The paginated scan terminates and is complete\<close>

lemma filter_from_nth:
  "sorted_wrt (\<lambda>a b. fst a < fst b) ys \<Longrightarrow> i < length ys \<Longrightarrow>
     filter (\<lambda>e. fst (ys ! i) \<le> fst e) ys = drop i (ys :: ('k::linorder \<times> 'v) list)"
proof (induction ys arbitrary: i)
  case Nil
  then show ?case by simp
next
  case (Cons y ys)
  show ?case
  proof (cases i)
    case 0
    have "\<forall>e\<in>set ys. fst y \<le> fst e" using Cons.prems(1) by auto
    then have "filter (\<lambda>e. fst y \<le> fst e) ys = ys" by (simp add: filter_id_conv)
    then show ?thesis using 0 by simp
  next
    case (Suc j)
    then have j: "j < length ys" using Cons.prems(2) by simp
    then have "fst y < fst (ys ! j)" using Cons.prems(1) by auto
    then have "\<not> fst (ys ! j) \<le> fst y" by simp
    moreover have "filter (\<lambda>e. fst (ys ! j) \<le> fst e) ys = drop j ys"
      using Cons.prems(1) j by (intro Cons.IH) simp_all
    ultimately show ?thesis using Suc by simp
  qed
qed

lemma scroll_from_strict:
  assumes "distinct (map fst (col_points c))"
  shows "sorted_wrt (\<lambda>a b. fst a < fst b) (scroll_from c offset)"
proof -
  let ?xs = "sort_key fst (col_points c)"
  have "mset (map fst ?xs) = mset (map fst (col_points c))" by simp
  then have "distinct (map fst ?xs)" using assms by (metis mset_eq_imp_distinct_iff)
  moreover have "sorted (map fst ?xs)" by simp
  ultimately have "sorted_wrt (<) (map fst ?xs)" by (simp add: strict_sorted_iff)
  then have "sorted_wrt (\<lambda>a b. fst a < fst b) ?xs" by (simp add: sorted_wrt_map)
  then show ?thesis unfolding scroll_from_def by (rule sorted_wrt_filter)
qed

lemma scroll_from_next:
  assumes d: "distinct (map fst (col_points (c :: ('id::linorder) collection_state)))"
    and l: "limit < length (scroll_from c offset)"
  shows "scroll_from c (Some (fst (scroll_from c offset ! limit))) =
           drop limit (scroll_from c offset)"
proof -
  let ?xs = "sort_key fst (col_points c)"
  let ?P = "\<lambda>e. case offset of None \<Rightarrow> True | Some off \<Rightarrow> off \<le> fst e"
  let ?ys = "scroll_from c offset"
  let ?k = "fst (?ys ! limit)"
  have "e \<in> set ?ys \<Longrightarrow> ?P e" for e :: "'id \<times> real list \<times> payload option"
    by (simp add: scroll_from_def)
  moreover have "?ys ! limit \<in> set ?ys" using l by simp
  ultimately have pk: "?P (?ys ! limit)" by blast
  have imp: "?k \<le> fst e \<Longrightarrow> ?P e" for e :: "'id \<times> real list \<times> payload option"
    using pk by (cases offset) auto
  have "scroll_from c (Some ?k) = filter (\<lambda>e. ?k \<le> fst e) ?xs"
    by (simp add: scroll_from_def)
  also have "\<dots> = filter (\<lambda>e. ?P e \<and> ?k \<le> fst e) ?xs"
    by (rule filter_cong) (use imp in auto)
  also have "\<dots> = filter (\<lambda>e. ?k \<le> fst e) ?ys"
    by (simp add: scroll_from_def conj_commute)
  also have "\<dots> = drop limit ?ys"
    using scroll_from_strict [OF d] l by (rule filter_from_nth)
  finally show ?thesis .
qed

lemma scroll_points_loop_result:
  assumes c: "map_of (storage w) (qs_collection store) = Some c"
    and d: "distinct (map fst (col_points c))"
  shows "map_option fst (scroll_points_loop store offset acc w) =
           Some (Inr (acc @ map (to_record True) (scroll_from c offset)))"
  using c
proof (induction "length (scroll_from c offset)" arbitrary: offset acc w rule: less_induct)
  case less
  let ?ys = "scroll_from c offset"
  let ?w1 = "logged (Scroll (qs_collection store)) w"
  have c1: "map_of (storage ?w1) (qs_collection store) = Some c"
    using less.prems by (simp add: logged_def)
  show ?case
  proof (cases "100 < length ?ys")
    case False
    then show ?thesis
      using less.prems
      by (subst scroll_points_loop.simps) (simp add: client_scroll_def Let_def)
  next
    case True
    let ?k = "fst (?ys ! 100)"
    have nxt: "scroll_from c (Some ?k) = drop 100 ?ys"
      using d True by (rule scroll_from_next)
    then have "length (scroll_from c (Some ?k)) < length ?ys" using True by simp
    then have "map_option fst (scroll_points_loop store (Some ?k)
                  (acc @ map (to_record True) (take 100 ?ys)) ?w1) =
               Some (Inr ((acc @ map (to_record True) (take 100 ?ys)) @
                     map (to_record True) (scroll_from c (Some ?k))))"
      using c1 by (rule less.hyps)
    also have "(acc @ map (to_record True) (take 100 ?ys)) @
                 map (to_record True) (scroll_from c (Some ?k)) =
               acc @ map (to_record True) ?ys"
      unfolding nxt by (simp flip: map_append)
    finally show ?thesis
      using less.prems True
      by (subst scroll_points_loop.simps) (simp add: client_scroll_def Let_def)
  qed
qed


lemma add_sources_append:
  "add_sources (xs @ ys) srcs = add_sources ys (add_sources xs srcs)"
  by (simp add: add_sources_def)

lemma add_sources_Nil: "add_sources [] srcs = srcs"
  by (simp add: add_sources_def)

lemma add_sources_Cons:
  "add_sources (p # ps) srcs =
     add_sources ps
       (case payload_get (payload_or_empty (rec_payload p)) ''source_id'' of
          None \<Rightarrow> srcs
        | Some s \<Rightarrow> if s = [] then srcs else insert s srcs)"
  by (simp add: add_sources_def)

lemma add_sources_set:
  "add_sources batch srcs =
     srcs \<union> {s. s \<noteq> [] \<and>
               (\<exists>p\<in>set batch. payload_get (payload_or_empty (rec_payload p)) ''source_id'' = Some s)}"
proof (induction batch arbitrary: srcs)
  case Nil
  show ?case by (simp add: add_sources_Nil)
next
  case (Cons p ps)
  show ?case
  proof (cases "payload_get (payload_or_empty (rec_payload p)) ''source_id''")
    case None
    then show ?thesis by (simp add: add_sources_Cons Cons.IH)
  next
    case (Some s)
    then show ?thesis by (cases "s = []") (auto simp: add_sources_Cons Cons.IH)
  qed
qed

lemma add_sources_finite: "finite srcs \<Longrightarrow> finite (add_sources batch srcs)"
  by (induction batch arbitrary: srcs)
     (simp_all add: add_sources_Nil add_sources_Cons split: option.splits)

lemma list_sources_loop_result:
  assumes c: "map_of (storage w) (qs_collection self) = Some c"
    and d: "distinct (map fst (col_points c))"
  shows "map_option fst (list_sources_loop self offset srcs w) =
           Some (Inr (add_sources (map (to_record False) (scroll_from c offset)) srcs))"
  using c
proof (induction "length (scroll_from c offset)" arbitrary: offset srcs w rule: less_induct)
  case less
  let ?ys = "scroll_from c offset"
  let ?w1 = "logged (Scroll (qs_collection self)) w"
  have c1: "map_of (storage ?w1) (qs_collection self) = Some c"
    using less.prems by (simp add: logged_def)
  show ?case
  proof (cases "100 < length ?ys")
    case False
    then show ?thesis
      using less.prems
      by (subst list_sources_loop.simps) (simp add: client_scroll_def Let_def)
  next
    case True
    let ?k = "fst (?ys ! 100)"
    let ?s1 = "add_sources (map (to_record False) (take 100 ?ys)) srcs"
    have nxt: "scroll_from c (Some ?k) = drop 100 ?ys"
      using d True by (rule scroll_from_next)
    then have "length (scroll_from c (Some ?k)) < length ?ys" using True by simp
    then have "map_option fst (list_sources_loop self (Some ?k) ?s1 ?w1) =
               Some (Inr (add_sources (map (to_record False) (scroll_from c (Some ?k))) ?s1))"
      using c1 by (rule less.hyps)
    also have "add_sources (map (to_record False) (scroll_from c (Some ?k))) ?s1 =
               add_sources (map (to_record False) ?ys) srcs"
      unfolding nxt by (simp flip: add_sources_append map_append)
    finally show ?thesis
      using less.prems True
      by (subst list_sources_loop.simps) (simp add: client_scroll_def Let_def)
  qed
qed

text \<open>
  Claim C5. For a collection of any size whose ids are distinct, both scroll loops
  return. The loop of \<open>get_visualization_data\<close> returns the records of the collection,
  each exactly once (as a multiset, the collection's points; the ids of the result are
  distinct). \<open>list_sources\<close> returns, sorted and without repetition, exactly the
  non-empty source ids that occur in the collection, so no record was skipped.
\<close>

theorem scan_yields_each_record_once:
  assumes c: "map_of (storage w) (qs_collection store) = Some c"
    and d: "distinct (map fst (col_points c))"
  shows "(\<exists>rs. map_option fst (scroll_points_loop store None [] w) = Some (Inr rs)
            \<and> mset rs = image_mset (to_record True) (mset (col_points c))
            \<and> distinct (map rec_id rs))
       \<and> (\<exists>ss. map_option fst (list_sources store w) = Some (Inr ss)
            \<and> sorted ss \<and> distinct ss
            \<and> set ss = {s. s \<noteq> [] \<and> (\<exists>e\<in>set (col_points c).
                  payload_get (payload_or_empty (snd (snd e))) ''source_id'' = Some s)})"
proof (intro conjI)
  let ?rs = "map (to_record True) (sort_key fst (col_points c))"
  have "map_option fst (scroll_points_loop store None [] w) = Some (Inr ?rs)"
    using scroll_points_loop_result [OF c d, of None "[]"] by (simp add: scroll_from_def)
  moreover have "mset ?rs = image_mset (to_record True) (mset (col_points c))" by simp
  moreover have "distinct (map rec_id ?rs)"
  proof -
    have "map rec_id ?rs = map fst (sort_key fst (col_points c))"
      by (simp add: to_record_def comp_def)
    moreover have "mset (map fst (sort_key fst (col_points c))) = mset (map fst (col_points c))"
      by simp
    ultimately show ?thesis using d by (metis mset_eq_imp_distinct_iff)
  qed
  ultimately show "\<exists>rs. map_option fst (scroll_points_loop store None [] w) = Some (Inr rs)
            \<and> mset rs = image_mset (to_record True) (mset (col_points c))
            \<and> distinct (map rec_id rs)" by blast
next
  let ?S = "{s. s \<noteq> [] \<and> (\<exists>e\<in>set (col_points c).
                  payload_get (payload_or_empty (snd (snd e))) ''source_id'' = Some s)}"
  have l: "map_option fst (list_sources_loop store None {} w) =
        Some (Inr (add_sources (map (to_record False) (sort_key fst (col_points c))) {}))"
    using list_sources_loop_result [OF c d, of None "{}"] by (simp add: scroll_from_def)
  have "rec_payload (to_record False e) = snd (snd e)" for e :: "'a \<times> real list \<times> payload option"
    by (simp add: to_record_def)
  then have S: "add_sources (map (to_record False) (sort_key fst (col_points c))) {} = ?S"
    unfolding add_sources_set by (simp add: Bex_def conj_commute)
  have fin: "finite ?S"
    unfolding S [symmetric] by (rule add_sources_finite) simp
  obtain r w' where rw: "list_sources_loop store None {} w = Some (r, w')"
    using l by (cases "list_sources_loop store None {} w") auto
  then have r: "r = Inr ?S" using l S by simp
  have "map_option fst (list_sources store w) = Some (Inr (sorted_list_of_set ?S))"
    unfolding list_sources_def rw r by simp
  moreover have "sorted (sorted_list_of_set ?S)" "distinct (sorted_list_of_set ?S)"
    by simp_all
  moreover have "set (sorted_list_of_set ?S) = ?S"
    using fin by simp
  ultimately show "\<exists>ss. map_option fst (list_sources store w) = Some (Inr ss)
            \<and> sorted ss \<and> distinct ss \<and> set ss = ?S"
    by blast
qed


text \<open>A collection of 250 records, stored in descending order of id: three pages, 250
  distinct records.\<close>

theorem scan_yields_each_record_once_witness:
  "map_of (storage world_250) (qs_collection \<lparr>qs_collection = ''docs_2560'', qs_dim = 2560\<rparr>) =
     Some collection_250
   \<and> distinct (map fst (col_points collection_250))
   \<and> (\<exists>rs. map_option fst (scroll_points_loop \<lparr>qs_collection = ''docs_2560'', qs_dim = 2560\<rparr>
                 None [] world_250) = Some (Inr rs)
          \<and> length rs = 250 \<and> distinct (map rec_id rs))
   \<and> (\<exists>ss. map_option fst (list_sources \<lparr>qs_collection = ''docs_2560'', qs_dim = 2560\<rparr>
                 world_250) = Some (Inr ss)
          \<and> set ss = {''doc.pdf''})"
proof -
  let ?st = "\<lparr>qs_collection = ''docs_2560'', qs_dim = 2560\<rparr>"
  have h1: "map_of (storage world_250) (qs_collection ?st) = Some collection_250"
    by (simp add: world_250_def)
  have h2: "distinct (map fst (col_points collection_250))"
    by (simp add: collection_250_def comp_def)
  note t = scan_yields_each_record_once [OF h1 h2]
  from t obtain rs where rs: "map_option fst (scroll_points_loop ?st None [] world_250) = Some (Inr rs)"
    and m: "mset rs = image_mset (to_record True) (mset (col_points collection_250))"
    and dr: "distinct (map rec_id rs)" by blast
  have "size (mset rs) = size (image_mset (to_record True) (mset (col_points collection_250)))"
    using m by simp
  then have len: "length rs = 250" by (simp add: collection_250_def)
  have "(0::nat) \<in> set (rev [0..<250])" by simp
  then have S: "{s. s \<noteq> [] \<and> (\<exists>e\<in>set (col_points collection_250).
            payload_get (payload_or_empty (snd (snd e))) ''source_id'' = Some s)} = {''doc.pdf''}"
    by (auto simp: collection_250_def payload_get_def payload_or_empty_def intro: exI [of _ 0])
  from t obtain ss where ss: "map_option fst (list_sources ?st world_250) = Some (Inr ss)"
    and "set ss = {s. s \<noteq> [] \<and> (\<exists>e\<in>set (col_points collection_250).
            payload_get (payload_or_empty (snd (snd e))) ''source_id'' = Some s)}" by blast
  then have "set ss = {''doc.pdf''}" using S by simp
  then show ?thesis using h1 h2 rs len dr ss by blast
qed

text \<open>The \<open>with\<close> block of \<open>get_visualization_data\<close> on an existing collection.\<close>

lemma get_visualization_points_all:
  assumes c: "map_of (storage w) ''docs_2560'' = Some c"
    and d: "distinct (map fst (col_points c))"
  shows "map_option fst (get_visualization_points w) =
           Some (Inr (map (to_record True) (sort_key fst (col_points c))))"
proof -
  obtain st w1 where q: "QdrantStorage_default w = (st, w1)" by (cases "QdrantStorage_default w")
  have st: "st = Inr \<lparr>qs_collection = ''docs_2560'', qs_dim = 2560\<rparr>"
    using QdrantStorage_init_storage(1) [of "''docs_2560''" 2560 w] q
    by (simp add: QdrantStorage_default_def)
  have "storage w1 = storage w"
    using QdrantStorage_default_present [OF c] q by simp
  then have c1: "map_of (storage w1) (qs_collection \<lparr>qs_collection = ''docs_2560'', qs_dim = 2560\<rparr>) = Some c"
    using c by simp
  have "map_option fst (scroll_points_loop \<lparr>qs_collection = ''docs_2560'', qs_dim = 2560\<rparr> None [] w1) =
          Some (Inr (map (to_record True) (sort_key fst (col_points c))))"
    using scroll_points_loop_result [OF c1 d, of None "[]"] by (simp add: scroll_from_def)
  then show ?thesis
    using q st by (auto simp: get_visualization_points_def)
qed

end
